theory Spec2Isabelle
  imports Complex_Main
begin

section \<open>The genetic algorithm engine of totter/evolution/GeneticAlgorithm.py\<close>

text \<open>
  The engine is the class \<open>GeneticAlgorithm\<close>. Its eight operators are abstract methods
  of a concrete subclass, the evaluation backend (\<open>QwopEvaluator\<close>) and Python's global
  \<open>random\<close> module are external. All of them are parameters of the model, collected in
  the record \<open>env\<close>. The state of the \<open>random\<close> module has the type \<open>'r\<close> and is
  threaded through every call that may draw from it.

  Python exceptions raised by the engine's own statements are values of \<open>error\<close>; a
  method that may raise returns \<open>error + 'a\<close> with \<open>Inl\<close> for the exception.
  Fitness values are Python floats, modelled as \<open>real\<close> (no rounding, no NaN).
\<close>

datatype error = TypeError | IndexError | ZeroDivisionError | AttributeError

subsection \<open>Individuals and the object store\<close>

text \<open>
  \<open>class Individual\<close>: a genome and a fitness that is \<open>None\<close> until evaluated.
  Individuals are mutable objects that the population list and \<open>best_indv\<close> share by
  reference, so the state holds a store of objects (\<open>heap\<close>) and the references are
  addresses into it. \<open>Individual(genome)\<close> allocates at the next free address.
\<close>

record 'g individual =
  genome :: 'g
  fitness :: "real option"

type_synonym addr = nat

definition Individual :: "'g \<Rightarrow> 'g individual" where
  "Individual g = \<lparr>genome = g, fitness = None\<rparr>"

subsection \<open>The evaluation backend\<close>

text \<open>
  Modelled from the spec: \<open>QwopEvaluator\<close> (totter.api.qwop) is not part of the source
  file. The engine writes two attributes of it, \<open>time_limit\<close> and
  \<open>simulator.time_limit\<close>; the constructor call \<open>QwopEvaluator(time_limit=t)\<close> is taken to
  set both to \<open>t\<close>. What an evaluation returns is the parameter \<open>qwop_evaluate\<close> below.
\<close>

record evaluator =
  time_limit :: int
  simulator_time_limit :: int

definition QwopEvaluator :: "int \<Rightarrow> evaluator" where
  "QwopEvaluator t = \<lparr>time_limit = t, simulator_time_limit = t\<rparr>"

subsection \<open>The operators and the external collaborators\<close>

text \<open>
  The eight abstract methods, with the first measurement pair of
  \<open>qwop_evaluator.evaluate(strategy)\<close>, \<open>random.seed\<close> and \<open>random.random\<close>.
  Operators receive individuals by value (the engine reads only \<open>genome\<close> of a parent,
  and \<open>replace\<close> answers with an index).
\<close>

record ('g, 'p, 'r) env =
  generate_random_genome :: "'r \<Rightarrow> 'g \<times> 'r"
  genome_to_phenotype :: "'g \<Rightarrow> 'p"
  compute_fitness :: "real \<Rightarrow> real \<Rightarrow> real"
  select_parents :: "'g individual list \<Rightarrow> int \<Rightarrow> 'r \<Rightarrow> 'g individual list \<times> 'r"
  crossover :: "'g \<Rightarrow> 'g \<Rightarrow> 'r \<Rightarrow> ('g \<times> 'g) \<times> 'r"
  mutate :: "'g \<Rightarrow> 'r \<Rightarrow> 'g \<times> 'r"
  repair :: "'g \<Rightarrow> 'r \<Rightarrow> 'g \<times> 'r"
  replace :: "'g individual list \<Rightarrow> 'g individual \<Rightarrow> 'r \<Rightarrow> int option \<times> 'r"
  qwop_evaluate :: "evaluator \<Rightarrow> 'p \<Rightarrow> real \<times> real"
  random_seed_fn :: "int \<Rightarrow> 'r"
  random_random :: "'r \<Rightarrow> real \<times> 'r"

text \<open>
  The body of the base class's \<open>replace\<close> is \<open>pass\<close>: a subclass that does not override
  it inherits a method that returns \<open>None\<close> and draws nothing. The class is declared
  \<open>class GeneticAlgorithm(object)\<close>, so \<open>@abstractmethod\<close> does not block instantiation.
\<close>

definition GeneticAlgorithm_replace :: "'g individual list \<Rightarrow> 'g individual \<Rightarrow> 'r \<Rightarrow> int option \<times> 'r" where
  "GeneticAlgorithm_replace population candidate r = (None, r)"

subsection \<open>The engine state\<close>

text \<open>
  The keyword arguments of \<open>__init__\<close>, which are also the \<open>config\<close> dictionary of a
  checkpoint.
\<close>

record config =
  cfg_evaluations :: int
  cfg_eval_time_limit :: int
  cfg_pop_size :: int
  cfg_cx_prob :: real
  cfg_mt_prob :: real
  cfg_steady_state :: bool
  cfg_seed :: int

text \<open>
  The attributes of a \<open>GeneticAlgorithm\<close> object, the store of Individual objects, and
  the state of the global random generator (\<open>rng\<close>). A history entry is the list
  \<open>[generations, best_fitness, average_fitness]\<close>.
\<close>

record ('g, 'r) ga =
  random_seed :: int
  eval_time_limit :: int
  qwop_evaluator :: evaluator
  pop_size :: int
  cx_prob :: real
  mt_prob :: real
  steady_state :: bool
  total_evaluations :: int
  generations :: int
  max_evaluations :: int
  best_indv :: "addr option"
  history :: "(int \<times> real option \<times> real) list"
  population :: "addr list"
  heap :: "'g individual list"
  rng :: 'r

text \<open>\<open>[Individual(self.generate_random_genome()) for i in range(0, n)]\<close>\<close>

fun new_individuals :: "('g, 'p, 'r) env \<Rightarrow> nat \<Rightarrow> 'r \<Rightarrow> 'g individual list \<times> 'r" where
  "new_individuals E 0 r = ([], r)"
| "new_individuals E (Suc n) r =
     (let (g, r1) = generate_random_genome E r;
          (rest, r2) = new_individuals E n r1
      in (Individual g # rest, r2))"

text \<open>
  \<open>__init__\<close>. The argument \<open>r0\<close> is the state of the random generator before the call;
  \<open>random.seed(self.random_seed)\<close> replaces it. \<open>self.population[0]\<close> raises IndexError
  on an empty population (\<open>range(0, pop_size)\<close> is empty for \<open>pop_size \<le> 0\<close>).
\<close>

definition construct :: "('g, 'p, 'r) env \<Rightarrow> config \<Rightarrow> 'r \<Rightarrow> error + ('g, 'r) ga" where
  "construct E cfg r0 =
     (let r1 = random_seed_fn E (cfg_seed cfg);
          (pop, r2) = new_individuals E (nat (cfg_pop_size cfg)) r1
      in if pop = [] then Inl IndexError
         else Inr \<lparr>random_seed = cfg_seed cfg,
                   eval_time_limit = cfg_eval_time_limit cfg,
                   qwop_evaluator = QwopEvaluator (cfg_eval_time_limit cfg),
                   pop_size = cfg_pop_size cfg,
                   cx_prob = cfg_cx_prob cfg,
                   mt_prob = cfg_mt_prob cfg,
                   steady_state = cfg_steady_state cfg,
                   total_evaluations = 0,
                   generations = 1,
                   max_evaluations = cfg_evaluations cfg,
                   best_indv = Some 0,
                   history = [],
                   population = [0..<length pop],
                   heap = pop,
                   rng = r2\<rparr>)"

subsection \<open>Evaluation\<close>

text \<open>\<open>_evaluate(individual)\<close>, the individual given by its address.\<close>

definition evaluate :: "('g, 'p, 'r) env \<Rightarrow> ('g, 'r) ga \<Rightarrow> addr \<Rightarrow> ('g, 'r) ga" where
  "evaluate E s a =
     (let phenotype = genome_to_phenotype E (genome (heap s ! a));
          (distance, run_time) = qwop_evaluate E (qwop_evaluator s) phenotype
      in s\<lparr>heap := (heap s)[a := (heap s ! a)\<lparr>fitness := Some (compute_fitness E distance run_time)\<rparr>],
           total_evaluations := total_evaluations s + 1\<rparr>)"

subsection \<open>run(): the warm-up loop\<close>

text \<open>
  \<open>for indv in self.population\<close>: evaluate when the fitness is \<open>None\<close>, then
  \<open>if self.best_indv.fitness is None or indv.fitness > self.best_indv.fitness\<close>.
  Reading \<open>.fitness\<close> of \<open>None\<close> raises AttributeError, \<open>None > x\<close> raises TypeError.
\<close>

definition warm_body :: "('g, 'p, 'r) env \<Rightarrow> addr \<Rightarrow> ('g, 'r) ga \<Rightarrow> error + ('g, 'r) ga" where
  "warm_body E indv s =
     (let s1 = (if fitness (heap s ! indv) = None then evaluate E s indv else s)
      in case best_indv s1 of
           None \<Rightarrow> Inl AttributeError
         | Some b \<Rightarrow>
             (case fitness (heap s1 ! b) of
                None \<Rightarrow> Inr (s1\<lparr>best_indv := Some indv\<rparr>)
              | Some bf \<Rightarrow>
                  (case fitness (heap s1 ! indv) of
                     None \<Rightarrow> Inl TypeError
                   | Some f \<Rightarrow> Inr (if f > bf then s1\<lparr>best_indv := Some indv\<rparr> else s1))))"

fun warm_up :: "('g, 'p, 'r) env \<Rightarrow> addr list \<Rightarrow> ('g, 'r) ga \<Rightarrow> error + ('g, 'r) ga" where
  "warm_up E [] s = Inr s"
| "warm_up E (indv # rest) s =
     (case warm_body E indv s of
        Inl e \<Rightarrow> Inl e
      | Inr s1 \<Rightarrow> warm_up E rest s1)"

subsection \<open>run(): one iteration of the while loop\<close>

text \<open>\<open>xs[::2]\<close>; \<open>xs[1::2]\<close> is \<open>every_other (drop 1 xs)\<close>.\<close>

fun every_other :: "'a list \<Rightarrow> 'a list" where
  "every_other [] = []"
| "every_other [x] = [x]"
| "every_other (x # y # xs) = x # every_other xs"

text \<open>The crossover loop over \<open>zip(parents[::2], parents[1::2])\<close>.\<close>

fun crossover_loop ::
  "('g, 'p, 'r) env \<Rightarrow> real \<Rightarrow> ('g individual \<times> 'g individual) list \<Rightarrow> 'g list \<Rightarrow> 'r \<Rightarrow> 'g list \<times> 'r" where
  "crossover_loop E cx [] offspring r = (offspring, r)"
| "crossover_loop E cx ((parent1, parent2) # ps) offspring r =
     (let (u, r1) = random_random E r
      in if u < cx then
           (let ((child1_genome, child2_genome), r2) = crossover E (genome parent1) (genome parent2) r1
            in crossover_loop E cx ps (offspring @ [child1_genome, child2_genome]) r2)
         else crossover_loop E cx ps offspring r1)"

text \<open>
  Parent selection and crossover: the genomes of this iteration's offspring and the
  state of the random generator after producing them.
\<close>

definition breed :: "('g, 'p, 'r) env \<Rightarrow> ('g, 'r) ga \<Rightarrow> 'g list \<times> 'r" where
  "breed E s =
     (let (parents, r1) =
            select_parents E (map (\<lambda>a. heap s ! a) (population s))
              (if steady_state s then 2 else pop_size s) (rng s)
      in crossover_loop E (cx_prob s) (zip (every_other parents) (every_other (drop 1 parents))) [] r1)"

text \<open>
  The loop \<open>for idx in range(0, len(offspring))\<close>: mutate with probability \<open>mt_prob\<close>,
  repair, wrap in a new Individual, evaluate. The result lists the addresses of the
  children, which replace the genomes in \<open>offspring\<close>.
\<close>

fun mutate_loop :: "('g, 'p, 'r) env \<Rightarrow> 'g list \<Rightarrow> ('g, 'r) ga \<Rightarrow> addr list \<times> ('g, 'r) ga" where
  "mutate_loop E [] s = ([], s)"
| "mutate_loop E (g # gs) s =
     (let (u, r1) = random_random E (rng s);
          (g1, r2) = (if u < mt_prob s then mutate E g r1 else (g, r1));
          (g2, r3) = repair E g1 r2;
          child = length (heap s);
          s1 = s\<lparr>heap := heap s @ [Individual g2], rng := r3\<rparr>;
          s2 = evaluate E s1 child;
          (children, s3) = mutate_loop E gs s2
      in (child # children, s3))"

text \<open>\<open>if self.best_indv is None or child.fitness > self.best_indv.fitness: self.best_indv = child\<close>\<close>

definition update_best :: "('g, 'r) ga \<Rightarrow> addr \<Rightarrow> error + ('g, 'r) ga" where
  "update_best s child =
     (case best_indv s of
        None \<Rightarrow> Inr (s\<lparr>best_indv := Some child\<rparr>)
      | Some b \<Rightarrow>
          (case fitness (heap s ! child) of
             None \<Rightarrow> Inl TypeError
           | Some cf \<Rightarrow>
               (case fitness (heap s ! b) of
                  None \<Rightarrow> Inl TypeError
                | Some bf \<Rightarrow> Inr (if cf > bf then s\<lparr>best_indv := Some child\<rparr> else s))))"

text \<open>
  \<open>xs[i] = v\<close> on a Python list: a negative index counts from the end, an index out of
  range raises IndexError, the length never changes.
\<close>

definition list_setitem :: "'a list \<Rightarrow> int \<Rightarrow> 'a \<Rightarrow> error + 'a list" where
  "list_setitem xs i v =
     (let n = int (length xs); j = (if i < 0 then i + n else i)
      in if 0 \<le> j \<and> j < n then Inr (xs[nat j := v]) else Inl IndexError)"

text \<open>The body of \<open>for child in offspring\<close>: update the best individual, then replace.\<close>

definition process_child :: "('g, 'p, 'r) env \<Rightarrow> addr \<Rightarrow> ('g, 'r) ga \<Rightarrow> error + ('g, 'r) ga" where
  "process_child E child s =
     (case update_best s child of
        Inl e \<Rightarrow> Inl e
      | Inr s1 \<Rightarrow>
          (let (replacement_index, r1) =
                 replace E (map (\<lambda>a. heap s1 ! a) (population s1)) (heap s1 ! child) (rng s1);
               s2 = s1\<lparr>rng := r1\<rparr>
           in case replacement_index of
                None \<Rightarrow> Inr s2
              | Some i \<Rightarrow>
                  (case list_setitem (population s2) i child of
                     Inl e \<Rightarrow> Inl e
                   | Inr pop' \<Rightarrow> Inr (s2\<lparr>population := pop'\<rparr>))))"

fun update_population :: "('g, 'p, 'r) env \<Rightarrow> addr list \<Rightarrow> ('g, 'r) ga \<Rightarrow> error + ('g, 'r) ga" where
  "update_population E [] s = Inr s"
| "update_population E (child # children) s =
     (case process_child E child s of
        Inl e \<Rightarrow> Inl e
      | Inr s1 \<Rightarrow> update_population E children s1)"

text \<open>
  \<open>sum(map(lambda indv: indv.fitness, self.population)) / len(self.population)\<close>:
  the sum raises TypeError on a \<open>None\<close> fitness, the division raises ZeroDivisionError
  on an empty population.
\<close>

definition average_fitness :: "('g, 'r) ga \<Rightarrow> error + real" where
  "average_fitness s =
     (case those (map (\<lambda>a. fitness (heap s ! a)) (population s)) of
        None \<Rightarrow> Inl TypeError
      | Some fs \<Rightarrow>
          if length (population s) = 0 then Inl ZeroDivisionError
          else Inr (sum_list fs / real (length (population s))))"

definition record_history :: "('g, 'r) ga \<Rightarrow> error + ('g, 'r) ga" where
  "record_history s =
     (case best_indv s of
        None \<Rightarrow> Inr s
      | Some b \<Rightarrow>
          (case average_fitness s of
             Inl e \<Rightarrow> Inl e
           | Inr average \<Rightarrow>
               Inr (s\<lparr>history := history s @ [(generations s, fitness (heap s ! b), average)]\<rparr>)))"

definition iteration :: "('g, 'p, 'r) env \<Rightarrow> ('g, 'r) ga \<Rightarrow> error + ('g, 'r) ga" where
  "iteration E s =
     (let (offspring, r2) = breed E s;
          (children, s1) = mutate_loop E offspring (s\<lparr>rng := r2\<rparr>)
      in case update_population E children s1 of
           Inl e \<Rightarrow> Inl e
         | Inr s2 \<Rightarrow>
             (case record_history s2 of
                Inl e \<Rightarrow> Inl e
              | Inr s3 \<Rightarrow> Inr (s3\<lparr>generations := generations s3 + 1\<rparr>)))"

subsection \<open>run()\<close>

text \<open>
  \<open>while self.total_evaluations < self.max_evaluations\<close>. The loop need not end (an
  iteration may produce no offspring), so it runs on fuel: \<open>None\<close> means that \<open>n\<close>
  iterations did not exhaust the budget. The fuel is only spent by an iteration,
  never by the test at the top of the loop. The returned wall time is not modelled;
  the result is the final state.
\<close>

fun run_loop :: "('g, 'p, 'r) env \<Rightarrow> nat \<Rightarrow> ('g, 'r) ga \<Rightarrow> (error + ('g, 'r) ga) option" where
  "run_loop E 0 s =
     (if total_evaluations s < max_evaluations s then None else Some (Inr s))"
| "run_loop E (Suc k) s =
     (if total_evaluations s < max_evaluations s then
        (case iteration E s of
           Inl e \<Rightarrow> Some (Inl e)
         | Inr s1 \<Rightarrow> run_loop E k s1)
      else Some (Inr s))"

definition run :: "('g, 'p, 'r) env \<Rightarrow> nat \<Rightarrow> ('g, 'r) ga \<Rightarrow> (error + ('g, 'r) ga) option" where
  "run E n s =
     (case warm_up E (population s) s of
        Inl e \<Rightarrow> Some (Inl e)
      | Inr s1 \<Rightarrow> run_loop E n s1)"

subsection \<open>seed()\<close>

text \<open>
  The seed cache: the file \<open>seed_{pop_size}.tsd\<close> of the strategy's
  \<open>population_seeds\<close> directory, for each \<open>pop_size\<close>; \<open>None\<close> when the file does not
  exist. A file holds the pickled list of individuals (their genomes and fitnesses).
\<close>

type_synonym 'g seed_files = "int \<Rightarrow> 'g individual list option"

text \<open>
  The "custom evaluation" of the pool: \<open>indv.fitness = distance\<close>, the raw distance of
  the first measurement pair. Each individual is paired with the distance assigned to
  it, which is the value the sort key \<open>-individual.fitness\<close> negates.
\<close>

definition score_pool ::
  "('g, 'p, 'r) env \<Rightarrow> evaluator \<Rightarrow> 'g individual list \<Rightarrow> (real \<times> 'g individual) list" where
  "score_pool E ev pool =
     map (\<lambda>indv.
            let (distance, run_time) = qwop_evaluate E ev (genome_to_phenotype E (genome indv))
            in (distance, indv\<lparr>fitness := Some distance\<rparr>)) pool"

text \<open>
  The branch \<open>if not os.path.exists(population_file)\<close>: the list that is pickled into
  the file, and the state afterwards. \<open>sorted\<close> is stable, as is \<open>sort_key\<close>;
  the slice is \<open>sorted_pool[:pool_size]\<close>.
\<close>

definition generate_seeds ::
  "('g, 'p, 'r) env \<Rightarrow> int \<Rightarrow> int \<Rightarrow> ('g, 'r) ga \<Rightarrow> 'g individual list \<times> ('g, 'r) ga" where
  "generate_seeds E pool_size limit s =
     (let s1 = s\<lparr>qwop_evaluator := (qwop_evaluator s)\<lparr>simulator_time_limit := limit\<rparr>\<rparr>;
          (pool, r1) = new_individuals E (nat pool_size) (rng s1);
          scored = score_pool E (qwop_evaluator s1) pool;
          sorted_pool = map snd (sort_key (\<lambda>(distance, indv). - distance) scored);
          population = take (nat pool_size) sorted_pool
      in (population,
          s1\<lparr>rng := r1,
             qwop_evaluator := (qwop_evaluator s1)\<lparr>simulator_time_limit := eval_time_limit s1\<rparr>\<rparr>))"

text \<open>
  \<open>seed(pool_size, time_limit)\<close>. The result is the seed cache after the call and
  either the exception or the new state. Unpickling creates new objects; they are
  allocated behind the existing ones. \<open>self.population[0]\<close> raises IndexError when the
  loaded list is empty.
\<close>

definition seed ::
  "('g, 'p, 'r) env \<Rightarrow> int \<Rightarrow> int \<Rightarrow> 'g seed_files \<Rightarrow> ('g, 'r) ga
     \<Rightarrow> 'g seed_files \<times> (error + ('g, 'r) ga)" where
  "seed E pool_size limit files s =
     (let (seeded_pop, files1, s1) =
            (case files (pop_size s) of
               None \<Rightarrow>
                 (let (population, s') = generate_seeds E pool_size limit s
                  in (population, files(pop_size s \<mapsto> population), s'))
             | Some stored \<Rightarrow> (stored, files, s))
      in if seeded_pop = [] then (files1, Inl IndexError)
         else (files1,
               Inr (s1\<lparr>population := [length (heap s1)..<length (heap s1) + length seeded_pop],
                       best_indv := Some (length (heap s1)),
                       heap := heap s1 @ map (\<lambda>indv. indv\<lparr>fitness := None\<rparr>) seeded_pop\<rparr>)))"

subsection \<open>save_current_state() and load()\<close>

text \<open>
  The pickled dictionary of \<open>save_current_state\<close>. Pickling keeps the sharing between
  \<open>population\<close> and \<open>best_individual\<close>: the snapshot holds the objects
  (\<open>snap_objects\<close>) and the references as addresses into them. The \<open>name\<close> entry, the
  class name, is never read back and is left out.
\<close>

record 'g snapshot =
  snap_population :: "addr list"
  snap_objects :: "'g individual list"
  snap_generations :: int
  snap_total_evaluations :: int
  snap_history :: "(int \<times> real option \<times> real) list"
  snap_config :: config
  snap_best_individual :: "addr option"

definition save_current_state :: "('g, 'r) ga \<Rightarrow> 'g snapshot" where
  "save_current_state s =
     \<lparr>snap_population = population s,
      snap_objects = heap s,
      snap_generations = generations s,
      snap_total_evaluations = total_evaluations s,
      snap_history = history s,
      snap_config =
        \<lparr>cfg_evaluations = max_evaluations s,
         cfg_eval_time_limit = eval_time_limit s,
         cfg_pop_size = pop_size s,
         cfg_cx_prob = cx_prob s,
         cfg_mt_prob = mt_prob s,
         cfg_steady_state = steady_state s,
         cfg_seed = random_seed s\<rparr>,
      snap_best_individual = best_indv s\<rparr>"

text \<open>
  \<open>load()\<close>: the progress file is \<open>None\<close> when it does not exist. The unpickled
  objects become the store of the engine (every reference of the engine is replaced).
\<close>

definition load :: "('g, 'p, 'r) env \<Rightarrow> 'g snapshot option \<Rightarrow> ('g, 'r) ga \<Rightarrow> bool \<times> ('g, 'r) ga" where
  "load E progress s =
     (case progress of
        None \<Rightarrow> (False, s)
      | Some data \<Rightarrow>
          (True,
           s\<lparr>population := snap_population data,
             heap := snap_objects data,
             generations := snap_generations data,
             total_evaluations := snap_total_evaluations data,
             history := snap_history data,
             max_evaluations := snap_total_evaluations data + max_evaluations s,
             qwop_evaluator := (qwop_evaluator s)\<lparr>time_limit := cfg_eval_time_limit (snap_config data)\<rparr>,
             pop_size := cfg_pop_size (snap_config data),
             cx_prob := cfg_cx_prob (snap_config data),
             mt_prob := cfg_mt_prob (snap_config data),
             steady_state := cfg_steady_state (snap_config data),
             random_seed := cfg_seed (snap_config data),
             rng := random_seed_fn E (cfg_seed (snap_config data)),
             best_indv := snap_best_individual data\<rparr>))"

subsection \<open>Well-formed states\<close>

text \<open>
  Every reference of the engine points to an object of the store. The fitness of the
  best individual is read through its reference.
\<close>

definition refs_valid :: "('g, 'r) ga \<Rightarrow> bool" where
  "refs_valid s =
     (list_all (\<lambda>a. a < length (heap s)) (population s) \<and>
      (case best_indv s of None \<Rightarrow> True | Some b \<Rightarrow> b < length (heap s)))"

definition best_fitness :: "('g, 'r) ga \<Rightarrow> real option" where
  "best_fitness s = (case best_indv s of None \<Rightarrow> None | Some b \<Rightarrow> fitness (heap s ! b))"


text \<open>\<open>x \<le> y\<close> on two fitness values that are both set.\<close>

definition fitness_le :: "real option \<Rightarrow> real option \<Rightarrow> bool" where
  "fitness_le x y = (case x of None \<Rightarrow> False | Some a \<Rightarrow> (case y of None \<Rightarrow> False | Some b \<Rightarrow> a \<le> b))"

text \<open>
  The history of a state is bounded when every entry has a generation below the
  generation counter and a best fitness that is set and at most the fitness of the
  current best individual. It is sorted when generations strictly increase and best
  fitnesses do not decrease along the list.
\<close>

definition history_bounded :: "('g, 'r) ga \<Rightarrow> bool" where
  "history_bounded s =
     list_all (\<lambda>e. fst e < generations s \<and> fitness_le (fst (snd e)) (best_fitness s)) (history s)"

definition history_sorted :: "(int \<times> real option \<times> real) list \<Rightarrow> bool" where
  "history_sorted h =
     sorted_wrt (\<lambda>e1 e2. fst e1 < fst e2 \<and> fitness_le (fst (snd e1)) (fst (snd e2))) h"


text \<open>The state in which \<open>run()\<close> may be entered, and the invariant of its while loop.\<close>

definition entry_ok :: "('g, 'r) ga \<Rightarrow> bool" where
  "entry_ok s =
     (refs_valid s \<and> population s \<noteq> [] \<and> history_bounded s \<and> history_sorted (history s))"

definition loop_inv :: "('g, 'r) ga \<Rightarrow> bool" where
  "loop_inv s =
     (refs_valid s \<and> best_fitness s \<noteq> None \<and> history_bounded s \<and> history_sorted (history s))"

subsection \<open>A concrete strategy\<close>

text \<open>
  A small deterministic strategy for evaluating the engine on concrete inputs. Genomes
  and phenotypes are integers, the random generator is a counter whose \<open>random()\<close>
  is always 0 (so crossover and mutation always fire), the measured distance of a
  genome is the genome itself and the fitness twice the distance, the first \<open>n\<close>
  members are the parents, crossover yields the sum and the difference of its parents,
  mutation adds one, and a child always replaces slot 0.
\<close>

definition demo :: "(int, int, nat) env" where
  "demo =
     \<lparr>generate_random_genome = (\<lambda>r. (int r, Suc r)),
      genome_to_phenotype = (\<lambda>g. g),
      compute_fitness = (\<lambda>distance run_time. 2 * distance),
      select_parents = (\<lambda>pop n r. (take (nat n) pop, r)),
      crossover = (\<lambda>g1 g2 r. ((g1 + g2, g1 - g2), r)),
      mutate = (\<lambda>g r. (g + 1, r)),
      repair = (\<lambda>g r. (g, r)),
      replace = (\<lambda>pop candidate r. (Some 0, r)),
      qwop_evaluate = (\<lambda>ev p. (real_of_int p, 1)),
      random_seed_fn = (\<lambda>n. nat n),
      random_random = (\<lambda>r. (0, Suc r))\<rparr>"

definition demo_config :: config where
  "demo_config =
     \<lparr>cfg_evaluations = 4,
      cfg_eval_time_limit = 600,
      cfg_pop_size = 2,
      cfg_cx_prob = 0.9,
      cfg_mt_prob = 0.05,
      cfg_steady_state = True,
      cfg_seed = 3\<rparr>"

text \<open>The states of the engine with this strategy that the examples below go through.\<close>

definition demo_start :: "(int, nat) ga" where
  "demo_start =
     \<lparr>random_seed = 3, eval_time_limit = 600,
      qwop_evaluator = \<lparr>time_limit = 600, simulator_time_limit = 600\<rparr>,
      pop_size = 2, cx_prob = 9 / 10, mt_prob = 1 / 20,
      steady_state = True, total_evaluations = 0, generations = 1,
      max_evaluations = 4, best_indv = Some 0, history = [],
      population = [0, 1],
      heap = [\<lparr>genome = 3, fitness = None\<rparr>, \<lparr>genome = 4, fitness = None\<rparr>],
      rng = 5\<rparr>"

text \<open>After the warm-up loop of \<open>run()\<close>.\<close>

definition demo_warm :: "(int, nat) ga" where
  "demo_warm =
     demo_start\<lparr>total_evaluations := 2, best_indv := Some 1,
       heap := [\<lparr>genome = 3, fitness = Some 6\<rparr>, \<lparr>genome = 4, fitness = Some 8\<rparr>]\<rparr>"

text \<open>After the warm-up and the offspring loop of the first iteration, with the first
  child (address 2, the new best) already moved into slot 0.\<close>

definition demo_mid :: "(int, nat) ga" where
  "demo_mid =
     demo_start\<lparr>total_evaluations := 4, best_indv := Some 2, population := [2, 1],
       heap := [\<lparr>genome = 3, fitness = Some 6\<rparr>, \<lparr>genome = 4, fitness = Some 8\<rparr>,
                \<lparr>genome = 8, fitness = Some 16\<rparr>, \<lparr>genome = 0, fitness = Some 0\<rparr>],
       rng := 8\<rparr>"

definition demo_final :: "(int, nat) ga" where
  "demo_final =
     demo_mid\<lparr>generations := 2, history := [(1, Some 16, 4)], population := [3, 1]\<rparr>"

text \<open>The same strategy with a budget of one evaluation.\<close>

definition demo_small_final :: "(int, nat) ga" where
  "demo_small_final =
     demo_start\<lparr>max_evaluations := 1, total_evaluations := 2, best_indv := Some 1,
       heap := [\<lparr>genome = 3, fitness = Some 6\<rparr>, \<lparr>genome = 4, fitness = Some 8\<rparr>]\<rparr>"

text \<open>A strategy whose children always improve, and its run with a budget of six.\<close>

definition grow :: "(int, int, nat) env" where
  "grow = demo\<lparr>crossover := (\<lambda>g1 g2 r. ((g1 + g2, g1 + g2 + 1), r))\<rparr>"

definition grow_final :: "(int, nat) ga" where
  "grow_final =
     demo_start\<lparr>total_evaluations := 6, generations := 3, max_evaluations := 6,
       best_indv := Some 5, history := [(1, Some 18, 13), (2, Some 30, 19)],
       population := [5, 1],
       heap := [\<lparr>genome = 3, fitness = Some 6\<rparr>, \<lparr>genome = 4, fitness = Some 8\<rparr>,
                \<lparr>genome = 8, fitness = Some 16\<rparr>, \<lparr>genome = 9, fitness = Some 18\<rparr>,
                \<lparr>genome = 14, fitness = Some 28\<rparr>, \<lparr>genome = 15, fitness = Some 30\<rparr>],
       rng := 11\<rparr>"

text \<open>A state in which a new child (address 6) ties with the best individual (address 5).\<close>

definition tie_state :: "(int, nat) ga" where
  "tie_state = grow_final\<lparr>heap := heap grow_final @ [\<lparr>genome = 15, fitness = Some 30\<rparr>]\<rparr>"

text \<open>The strategy of a subclass that does not define \<open>replace\<close>, and its run.\<close>

definition no_replace :: "(int, int, nat) env" where
  "no_replace = demo\<lparr>replace := GeneticAlgorithm_replace\<rparr>"

definition no_replace_final :: "(int, nat) ga" where
  "no_replace_final =
     demo_mid\<lparr>generations := 2, history := [(1, Some 16, 7)], population := [0, 1]\<rparr>"

text \<open>\<open>seed(3, 60)\<close> on the constructed engine with an empty seed cache.\<close>

definition demo_seed_file :: "int individual list" where
  "demo_seed_file =
     [\<lparr>genome = 7, fitness = Some 7\<rparr>, \<lparr>genome = 6, fitness = Some 6\<rparr>,
      \<lparr>genome = 5, fitness = Some 5\<rparr>]"

definition demo_seeded :: "(int, nat) ga" where
  "demo_seeded =
     demo_start\<lparr>best_indv := Some 2, population := [2, 3, 4],
       heap := [\<lparr>genome = 3, fitness = None\<rparr>, \<lparr>genome = 4, fitness = None\<rparr>,
                \<lparr>genome = 7, fitness = None\<rparr>, \<lparr>genome = 6, fitness = None\<rparr>,
                \<lparr>genome = 5, fitness = None\<rparr>],
       rng := 8\<rparr>"

text \<open>The engine \<open>demo_final\<close> after \<open>save_current_state()\<close> and \<open>load()\<close>.\<close>

definition demo_resumed :: "(int, nat) ga" where
  "demo_resumed = demo_final\<lparr>max_evaluations := 8, rng := 3\<rparr>"

subsection \<open>Reachable states\<close>


section \<open>Properties of the engine\<close>

subsection \<open>Evaluation and the offspring loop\<close>

lemma evaluate_fields [simp]:
  "population (evaluate E s a) = population s"
  "best_indv (evaluate E s a) = best_indv s"
  "history (evaluate E s a) = history s"
  "generations (evaluate E s a) = generations s"
  "max_evaluations (evaluate E s a) = max_evaluations s"
  "total_evaluations (evaluate E s a) = total_evaluations s + 1"
  "length (heap (evaluate E s a)) = length (heap s)"
  "mt_prob (evaluate E s a) = mt_prob s"
  "rng (evaluate E s a) = rng s"
  by (simp_all add: evaluate_def split: prod.splits)

lemma evaluate_other: "a' \<noteq> a \<Longrightarrow> heap (evaluate E s a) ! a' = heap s ! a'"
  by (simp add: evaluate_def split: prod.splits)

lemma evaluate_same:
  "a < length (heap s) \<Longrightarrow>
   fitness (heap (evaluate E s a) ! a) =
     Some (compute_fitness E
        (fst (qwop_evaluate E (qwop_evaluator s) (genome_to_phenotype E (genome (heap s ! a)))))
        (snd (qwop_evaluate E (qwop_evaluator s) (genome_to_phenotype E (genome (heap s ! a))))))"
  by (simp add: evaluate_def split: prod.splits)

lemma mutate_loop_spec:
  "mutate_loop E gs s = (cs, s') \<Longrightarrow>
     population s' = population s \<and> best_indv s' = best_indv s \<and> history s' = history s \<and>
     generations s' = generations s \<and> max_evaluations s' = max_evaluations s \<and>
     total_evaluations s' = total_evaluations s + int (length gs) \<and>
     length (heap s') = length (heap s) + length gs \<and>
     (\<forall>a < length (heap s). heap s' ! a = heap s ! a) \<and>
     set cs \<subseteq> {length (heap s)..<length (heap s')} \<and> length cs = length gs \<and>
     (\<forall>c \<in> set cs. fitness (heap s' ! c) \<noteq> None)"
proof (induction gs arbitrary: s cs s')
  case Nil
  then show ?case by simp
next
  case (Cons g gs)
  obtain u r1 where u: "random_random E (rng s) = (u, r1)" by (cases "random_random E (rng s)")
  obtain g1 r2 where g1: "(if u < mt_prob s then mutate E g r1 else (g, r1)) = (g1, r2)"
    by (cases "if u < mt_prob s then mutate E g r1 else (g, r1)")
  obtain g2 r3 where g2: "repair E g1 r2 = (g2, r3)" by (cases "repair E g1 r2")
  define child where "child = length (heap s)"
  define s2 where "s2 = evaluate E (s\<lparr>heap := heap s @ [Individual g2], rng := r3\<rparr>) child"
  obtain cs' s3 where rec: "mutate_loop E gs s2 = (cs', s3)" by (cases "mutate_loop E gs s2")
  from Cons.prems u g1 g2 rec have res: "cs = child # cs'" "s' = s3"
    by (simp_all add: child_def s2_def Let_def)
  note IH = Cons.IH [OF rec]
  have len2: "length (heap s2) = Suc (length (heap s))" by (simp add: s2_def)
  have pre2: "\<forall>a < length (heap s). heap s2 ! a = heap s ! a"
    by (simp add: s2_def child_def evaluate_other nth_append)
  have fit2: "fitness (heap s2 ! child) \<noteq> None"
    unfolding s2_def using evaluate_same [of child "s\<lparr>heap := heap s @ [Individual g2], rng := r3\<rparr>" E]
    by (simp add: child_def)
  have keep: "heap s3 ! child = heap s2 ! child" using IH len2 by (simp add: child_def)
  show ?case
    using IH len2 pre2 fit2 keep unfolding res
    by (auto simp: s2_def child_def)
qed

subsection \<open>Updating the best individual and the population\<close>

lemma fitness_le_simps [simp]:
  "fitness_le None y = False" "fitness_le x None = False"
  "fitness_le (Some a) (Some b) = (a \<le> b)"
  by (simp_all add: fitness_le_def split: option.splits)

lemma fitness_le_trans: "fitness_le x y \<Longrightarrow> fitness_le y z \<Longrightarrow> fitness_le x z"
  by (auto simp: fitness_le_def split: option.splits)

lemma update_best_spec:
  assumes "update_best s c = Inr s'"
  shows "heap s' = heap s" "population s' = population s" "history s' = history s"
    "generations s' = generations s" "total_evaluations s' = total_evaluations s"
    "max_evaluations s' = max_evaluations s" "rng s' = rng s"
    "best_indv s' = best_indv s \<or> best_indv s' = Some c"
    "best_fitness s \<noteq> None \<Longrightarrow> fitness_le (best_fitness s) (best_fitness s')"
  using assms
  by (auto simp: update_best_def best_fitness_def split: option.splits if_splits)

lemma list_setitem_spec:
  "list_setitem xs i v = Inr ys \<Longrightarrow> length ys = length xs \<and> set ys \<subseteq> insert v (set xs)"
  using set_update_subset_insert [of xs]
  by (auto simp: list_setitem_def Let_def split: if_splits)

lemma process_child_spec:
  assumes "process_child E c s = Inr s'"
  shows "heap s' = heap s" "history s' = history s"
    "generations s' = generations s" "total_evaluations s' = total_evaluations s"
    "max_evaluations s' = max_evaluations s"
    "length (population s') = length (population s)"
    "set (population s') \<subseteq> insert c (set (population s))"
    "best_indv s' = best_indv s \<or> best_indv s' = Some c"
    "best_fitness s \<noteq> None \<Longrightarrow> fitness_le (best_fitness s) (best_fitness s')"
proof -
  from assms obtain s1 where s1: "update_best s c = Inr s1"
    by (auto simp: process_child_def split: sum.splits)
  obtain idx r1 where rp: "replace E (map (\<lambda>a. heap s1 ! a) (population s1)) (heap s1 ! c) (rng s1) = (idx, r1)"
    by (cases "replace E (map (\<lambda>a. heap s1 ! a) (population s1)) (heap s1 ! c) (rng s1)")
  note ub = update_best_spec [OF s1]
  have cases: "(idx = None \<and> s' = s1\<lparr>rng := r1\<rparr>) \<or>
      (\<exists>i pop'. idx = Some i \<and> list_setitem (population s1) i c = Inr pop' \<and> s' = s1\<lparr>rng := r1, population := pop'\<rparr>)"
    using assms s1 rp by (auto simp: process_child_def Let_def split: option.splits sum.splits)
  have bf: "best_fitness s' = best_fitness s1" and bi: "best_indv s' = best_indv s1" and hp: "heap s' = heap s1"
    using cases by (auto simp: best_fitness_def split: option.splits)
  show "heap s' = heap s" using hp ub by simp
  show "history s' = history s" using cases ub by auto
  show "generations s' = generations s" using cases ub by auto
  show "total_evaluations s' = total_evaluations s" using cases ub by auto
  show "max_evaluations s' = max_evaluations s" using cases ub by auto
  show "length (population s') = length (population s)"
    using cases ub list_setitem_spec by fastforce
  show "set (population s') \<subseteq> insert c (set (population s))"
    using cases ub(2) list_setitem_spec [of "population s1" _ c] by fastforce
  show "best_indv s' = best_indv s \<or> best_indv s' = Some c" using bi ub by simp
  show "best_fitness s \<noteq> None \<Longrightarrow> fitness_le (best_fitness s) (best_fitness s')"
    using bf ub by simp
qed

lemma refs_valid_iff:
  "refs_valid s \<longleftrightarrow> (\<forall>a \<in> set (population s). a < length (heap s)) \<and> (\<forall>b. best_indv s = Some b \<longrightarrow> b < length (heap s))"
  by (auto simp: refs_valid_def list_all_iff split: option.splits)

lemma process_child_refs:
  assumes "process_child E c s = Inr s'" "refs_valid s" "c < length (heap s)"
  shows "refs_valid s'"
  using process_child_spec(1,7,8) [OF assms(1)] assms(2,3)
  unfolding refs_valid_iff by auto

lemma update_population_basic:
  "update_population E cs s = Inr s' \<Longrightarrow>
     heap s' = heap s \<and> history s' = history s \<and> generations s' = generations s \<and>
     total_evaluations s' = total_evaluations s \<and> max_evaluations s' = max_evaluations s \<and>
     length (population s') = length (population s)"
proof (induction cs arbitrary: s)
  case Nil
  then show ?case by simp
next
  case (Cons c cs)
  from Cons.prems(1) obtain s1 where s1: "process_child E c s = Inr s1"
    and rest: "update_population E cs s1 = Inr s'"
    by (auto split: sum.splits)
  show ?case using Cons.IH [OF rest] process_child_spec(1-6) [OF s1] by simp
qed

lemma update_population_best:
  "update_population E cs s = Inr s' \<Longrightarrow> refs_valid s \<Longrightarrow> \<forall>c \<in> set cs. c < length (heap s) \<Longrightarrow>
     refs_valid s' \<and> (best_fitness s \<noteq> None \<longrightarrow> fitness_le (best_fitness s) (best_fitness s'))"
proof (induction cs arbitrary: s)
  case Nil
  then show ?case by (auto simp: fitness_le_def split: option.splits)
next
  case (Cons c cs)
  from Cons.prems(1) obtain s1 where s1: "process_child E c s = Inr s1"
    and rest: "update_population E cs s1 = Inr s'"
    by (auto split: sum.splits)
  note pc = process_child_spec [OF s1]
  have rv: "refs_valid s1" using process_child_refs [OF s1 Cons.prems(2)] Cons.prems(3) by simp
  have valid: "\<forall>c \<in> set cs. c < length (heap s1)" using Cons.prems(3) pc(1) by simp
  note IH = Cons.IH [OF rest rv valid]
  have "best_fitness s \<noteq> None \<Longrightarrow> fitness_le (best_fitness s) (best_fitness s')"
  proof -
    assume a: "best_fitness s \<noteq> None"
    then have l1: "fitness_le (best_fitness s) (best_fitness s1)" using pc(9) by simp
    then have "best_fitness s1 \<noteq> None" by (auto simp: fitness_le_def split: option.splits)
    then have "fitness_le (best_fitness s1) (best_fitness s')" using IH by simp
    with l1 show ?thesis by (rule fitness_le_trans)
  qed
  then show ?case using IH by simp
qed

subsection \<open>One iteration and the loop invariant\<close>

lemma record_history_spec:
  assumes "record_history s = Inr s'"
  shows "heap s' = heap s" "population s' = population s" "best_indv s' = best_indv s"
    "generations s' = generations s" "total_evaluations s' = total_evaluations s"
    "max_evaluations s' = max_evaluations s"
    "best_indv s \<noteq> None \<Longrightarrow> \<exists>avg. history s' = history s @ [(generations s, best_fitness s, avg)]"
    "best_indv s = None \<Longrightarrow> history s' = history s"
  using assms
  by (auto simp: record_history_def best_fitness_def split: option.splits sum.splits)

lemma iteration_budget:
  assumes "iteration E s = Inr s'"
  shows "total_evaluations s' = total_evaluations s + int (length (fst (breed E s)))"
    and "max_evaluations s' = max_evaluations s"
    and "length (population s') = length (population s)"
    and "generations s' = generations s + 1"
proof -
  obtain offspring r2 where br: "breed E s = (offspring, r2)" by (cases "breed E s")
  obtain children s1 where ml: "mutate_loop E offspring (s\<lparr>rng := r2\<rparr>) = (children, s1)"
    by (cases "mutate_loop E offspring (s\<lparr>rng := r2\<rparr>)")
  from assms br ml obtain s2 s3 where up: "update_population E children s1 = Inr s2"
    and rh: "record_history s2 = Inr s3" and s': "s' = s3\<lparr>generations := generations s3 + 1\<rparr>"
    by (auto simp: iteration_def split: sum.splits)
  note m = mutate_loop_spec [OF ml] and u = update_population_basic [OF up]
    and r = record_history_spec [OF rh]
  show "total_evaluations s' = total_evaluations s + int (length (fst (breed E s)))"
    using m u r s' br by simp
  show "max_evaluations s' = max_evaluations s" using m u r s' by simp
  show "length (population s') = length (population s)" using m u r s' by simp
  show "generations s' = generations s + 1" using m u r s' by simp
qed

lemma best_fitness_upd [simp]:
  "best_fitness (s\<lparr>rng := r\<rparr>) = best_fitness s"
  "best_fitness (s\<lparr>population := p\<rparr>) = best_fitness s"
  "best_fitness (s\<lparr>history := h\<rparr>) = best_fitness s"
  "best_fitness (s\<lparr>generations := g\<rparr>) = best_fitness s"
  by (simp_all add: best_fitness_def split: option.splits)

lemma refs_valid_upd [simp]:
  "refs_valid (s\<lparr>rng := r\<rparr>) = refs_valid s"
  "refs_valid (s\<lparr>history := h\<rparr>) = refs_valid s"
  "refs_valid (s\<lparr>generations := g\<rparr>) = refs_valid s"
  by (simp_all add: refs_valid_iff)

lemma best_fitness_eqI:
  "heap s' = heap s \<Longrightarrow> best_indv s' = best_indv s \<Longrightarrow> best_fitness s' = best_fitness s"
  by (simp add: best_fitness_def split: option.splits)

lemma best_fitness_cong:
  "best_indv s' = best_indv s \<Longrightarrow> refs_valid s \<Longrightarrow> \<forall>a < length (heap s). heap s' ! a = heap s ! a \<Longrightarrow>
   best_fitness s' = best_fitness s"
  by (auto simp: best_fitness_def refs_valid_iff split: option.splits)

lemma iteration_inv:
  assumes it: "iteration E s = Inr s'" and rv: "refs_valid s" and bf: "best_fitness s \<noteq> None"
  shows "refs_valid s'"
    and "fitness_le (best_fitness s) (best_fitness s')"
    and "\<exists>avg. history s' = history s @ [(generations s, best_fitness s', avg)]"
proof -
  obtain offspring r2 where br: "breed E s = (offspring, r2)" by (cases "breed E s")
  obtain children s1 where ml: "mutate_loop E offspring (s\<lparr>rng := r2\<rparr>) = (children, s1)"
    by (cases "mutate_loop E offspring (s\<lparr>rng := r2\<rparr>)")
  from it br ml obtain s2 s3 where up: "update_population E children s1 = Inr s2"
    and rh: "record_history s2 = Inr s3" and s': "s' = s3\<lparr>generations := generations s3 + 1\<rparr>"
    by (auto simp: iteration_def split: sum.splits)
  note m = mutate_loop_spec [OF ml] and u = update_population_basic [OF up]
    and r = record_history_spec [OF rh]
  have rv1: "refs_valid s1" using m rv unfolding refs_valid_iff by auto
  have bf1: "best_fitness s1 = best_fitness s"
    using best_fitness_cong [of s1 s] m rv by simp
  have valid: "\<forall>c \<in> set children. c < length (heap s1)" using m by auto
  note ub = update_population_best [OF up rv1 valid]
  have le12: "fitness_le (best_fitness s) (best_fitness s2)" using ub bf bf1 by simp
  have bf3: "best_fitness s3 = best_fitness s2" using r(1,3) by (rule best_fitness_eqI)
  have bf': "best_fitness s' = best_fitness s3" using s' by simp
  have rv3: "refs_valid s3" using ub r(1-3) by (simp add: refs_valid_iff)
  show "refs_valid s'" using rv3 s' by simp
  show "fitness_le (best_fitness s) (best_fitness s')" using le12 bf3 bf' by simp
  have "best_indv s2 \<noteq> None" using le12 by (auto simp: best_fitness_def fitness_le_def split: option.splits)
  then obtain avg where "history s3 = history s2 @ [(generations s2, best_fitness s2, avg)]"
    using r(7) by blast
  then show "\<exists>avg. history s' = history s @ [(generations s, best_fitness s', avg)]"
    using s' m u bf3 bf' by simp
qed

lemma history_bounded_iff:
  "history_bounded s \<longleftrightarrow> (\<forall>e \<in> set (history s). fst e < generations s \<and> fitness_le (fst (snd e)) (best_fitness s))"
  by (simp add: history_bounded_def list_all_iff)

lemma iteration_loop_inv:
  assumes it: "iteration E s = Inr s'" and inv: "loop_inv s"
  shows "loop_inv s'"
proof -
  from inv have rv: "refs_valid s" and bf: "best_fitness s \<noteq> None"
    and hb: "history_bounded s" and hs: "history_sorted (history s)"
    by (simp_all add: loop_inv_def)
  note i = iteration_inv [OF it rv bf] and g = iteration_budget(4) [OF it]
  from i(3) obtain avg where h: "history s' = history s @ [(generations s, best_fitness s', avg)]" ..
  have bf': "best_fitness s' \<noteq> None" using i(2) by (auto simp: fitness_le_def split: option.splits)
  have refl: "fitness_le (best_fitness s') (best_fitness s')"
    using bf' by (auto simp: fitness_le_def split: option.splits)
  have old: "\<forall>e \<in> set (history s). fst e < generations s \<and> fitness_le (fst (snd e)) (best_fitness s')"
    using hb i(2) fitness_le_trans unfolding history_bounded_iff by blast
  have "history_bounded s'"
    unfolding history_bounded_iff h g using old refl by auto
  moreover have "history_sorted (history s')"
    using hs old unfolding history_sorted_def h by (simp add: sorted_wrt_append)
  ultimately show ?thesis using i(1) bf' by (simp add: loop_inv_def)
qed

lemma run_loop_inv:
  "run_loop E n s = Some (Inr s') \<Longrightarrow> loop_inv s \<Longrightarrow> loop_inv s'"
proof (induction n arbitrary: s)
  case 0
  then show ?case by (simp split: if_splits)
next
  case (Suc n)
  show ?case
  proof (cases "total_evaluations s < max_evaluations s")
    case True
    with Suc.prems(1) obtain s1 where it: "iteration E s = Inr s1" and rest: "run_loop E n s1 = Some (Inr s')"
      by (auto split: sum.splits)
    show ?thesis using Suc.IH [OF rest iteration_loop_inv [OF it Suc.prems(2)]] .
  next
    case False
    with Suc.prems show ?thesis by simp
  qed
qed


subsection \<open>The warm-up loop and the budget\<close>

lemma history_bounded_None:
  "history_bounded s \<Longrightarrow> best_fitness s = None \<Longrightarrow> history s = []"
  by (cases "history s") (simp_all add: history_bounded_def)

lemma history_bounded_mono:
  assumes "history_bounded s" and "history s' = history s" and "generations s' = generations s"
    and "history s \<noteq> [] \<Longrightarrow> fitness_le (best_fitness s) (best_fitness s')"
  shows "history_bounded s'"
proof (cases "history s = []")
  case True
  then show ?thesis using assms(2) by (simp add: history_bounded_def)
next
  case False
  then show ?thesis
    using assms fitness_le_trans unfolding history_bounded_iff by metis
qed

lemma warm_body_spec:
  assumes wb: "warm_body E a s = Inr s'" and rv: "refs_valid s" and a: "a < length (heap s)"
    and hb: "history_bounded s"
  shows "refs_valid s'" "population s' = population s" "history s' = history s"
    "generations s' = generations s" "length (heap s') = length (heap s)"
    "history_bounded s'" "best_fitness s' \<noteq> None"
proof -
  define s1 where "s1 = (if fitness (heap s ! a) = None then evaluate E s a else s)"
  have f1: "population s1 = population s" "best_indv s1 = best_indv s" "history s1 = history s"
    "generations s1 = generations s" "length (heap s1) = length (heap s)"
    by (simp_all add: s1_def)
  have fa: "fitness (heap s1 ! a) \<noteq> None"
    using evaluate_same [OF a, of E] by (auto simp: s1_def)
  from wb obtain b where b: "best_indv s1 = Some b"
    by (auto simp: warm_body_def s1_def Let_def split: option.splits)
  have keep: "fitness (heap s ! b) \<noteq> None \<Longrightarrow> heap s1 ! b = heap s ! b"
  proof -
    assume n: "fitness (heap s ! b) \<noteq> None"
    show ?thesis
    proof (cases "fitness (heap s ! a) = None")
      case True
      then have "b \<noteq> a" using n by auto
      then show ?thesis using True by (simp add: s1_def evaluate_other)
    next
      case False
      then show ?thesis by (auto simp: s1_def)
    qed
  qed
  have le1: "history s \<noteq> [] \<Longrightarrow> fitness_le (best_fitness s) (best_fitness s1)"
  proof -
    assume "history s \<noteq> []"
    then have "best_fitness s \<noteq> None" using history_bounded_None [OF hb] by blast
    then have "fitness (heap s ! b) \<noteq> None" using b f1(2) by (simp add: best_fitness_def)
    then have "best_fitness s1 = best_fitness s" "best_fitness s \<noteq> None"
      using keep b f1(2) by (simp_all add: best_fitness_def)
    then show ?thesis by (auto simp: fitness_le_def split: option.splits)
  qed
  have hb1: "history_bounded s1" using history_bounded_mono [OF hb f1(3,4) le1] .
  have rv1: "refs_valid s1" using rv f1 by (simp add: refs_valid_iff)
  have cases: "(s' = s1\<lparr>best_indv := Some a\<rparr> \<and> fitness_le (best_fitness s1) (fitness (heap s1 ! a)))
      \<or> (s' = s1\<lparr>best_indv := Some a\<rparr> \<and> best_fitness s1 = None)
      \<or> (s' = s1 \<and> best_fitness s1 \<noteq> None)"
    using wb b fa unfolding warm_body_def s1_def [symmetric] Let_def
    by (auto simp: best_fitness_def split: option.splits if_splits)
  have bfa: "best_fitness (s1\<lparr>best_indv := Some a\<rparr>) = fitness (heap s1 ! a)"
    by (simp add: best_fitness_def)
  show "refs_valid s'" using cases rv1 a f1 by (auto simp: refs_valid_iff)
  show "population s' = population s" using cases f1 by auto
  show h': "history s' = history s" using cases f1 by auto
  show g': "generations s' = generations s" using cases f1 by auto
  show "length (heap s') = length (heap s)" using cases f1 by auto
  show "best_fitness s' \<noteq> None" using cases fa bfa by auto
  have "history s1 \<noteq> [] \<Longrightarrow> fitness_le (best_fitness s1) (best_fitness s')"
    using cases bfa history_bounded_None [OF hb1]
    by (auto simp: fitness_le_def split: option.splits)
  then show "history_bounded s'"
    using history_bounded_mono [OF hb1, of s'] h' g' f1 by simp
qed

lemma warm_up_spec:
  "warm_up E as s = Inr s' \<Longrightarrow> refs_valid s \<Longrightarrow> \<forall>a \<in> set as. a < length (heap s) \<Longrightarrow>
   history_bounded s \<Longrightarrow>
     refs_valid s' \<and> population s' = population s \<and> history s' = history s \<and>
     generations s' = generations s \<and> length (heap s') = length (heap s) \<and>
     history_bounded s' \<and> (as \<noteq> [] \<longrightarrow> best_fitness s' \<noteq> None)"
proof (induction as arbitrary: s)
  case Nil
  then show ?case by simp
next
  case (Cons a as)
  from Cons.prems(1) obtain s1 where wb: "warm_body E a s = Inr s1"
    and rest: "warm_up E as s1 = Inr s'"
    by (auto split: sum.splits)
  have a: "a < length (heap s)" using Cons.prems(3) by simp
  note b = warm_body_spec [OF wb Cons.prems(2) a Cons.prems(4)]
  have valid: "\<forall>a \<in> set as. a < length (heap s1)" using Cons.prems(3) b(5) by simp
  note IH = Cons.IH [OF rest b(1) valid b(6)]
  have "best_fitness s' \<noteq> None"
  proof (cases as)
    case Nil
    then show ?thesis using rest b(7) by simp
  next
    case (Cons x xs)
    then show ?thesis using IH by simp
  qed
  then show ?case using IH b by simp
qed

lemma run_history_sorted:
  assumes "entry_ok s" and "run E n s = Some (Inr s')"
  shows "loop_inv s'"
proof -
  from assms(2) obtain s1 where wu: "warm_up E (population s) s = Inr s1"
    and rl: "run_loop E n s1 = Some (Inr s')"
    by (auto simp: run_def split: sum.splits)
  from assms(1) have rv: "refs_valid s" and ne: "population s \<noteq> []"
    and hb: "history_bounded s" and hs: "history_sorted (history s)"
    by (simp_all add: entry_ok_def)
  have valid: "\<forall>a \<in> set (population s). a < length (heap s)" using rv by (simp add: refs_valid_iff)
  note w = warm_up_spec [OF wu rv valid hb]
  have "loop_inv s1" using w ne hs by (simp add: loop_inv_def)
  then show ?thesis using run_loop_inv [OF rl] by simp
qed


lemma run_loop_budget:
  "run_loop E n s = Some (Inr s') \<Longrightarrow>
     max_evaluations s' \<le> total_evaluations s' \<and>
     (s' = s \<or> (\<exists>p. total_evaluations p < max_evaluations p \<and> iteration E p = Inr s'))"
proof (induction n arbitrary: s)
  case 0
  then show ?case by (simp split: if_splits)
next
  case (Suc n)
  show ?case
  proof (cases "total_evaluations s < max_evaluations s")
    case True
    with Suc.prems(1) obtain s1 where it: "iteration E s = Inr s1" and rest: "run_loop E n s1 = Some (Inr s')"
      by (auto split: sum.splits)
    from Suc.IH [OF rest] True it show ?thesis by auto
  next
    case False
    with Suc.prems show ?thesis by simp
  qed
qed

lemma run_loop_exhausted:
  "max_evaluations s \<le> total_evaluations s \<Longrightarrow> run_loop E n s = Some (Inr s)"
  by (cases n) simp_all


lemma run_budget:
  assumes "run E n s = Some (Inr s')"
  shows "max_evaluations s' \<le> total_evaluations s' \<and>
     (\<forall>k. run_loop E k s' = Some (Inr s')) \<and>
     (warm_up E (population s) s = Inr s' \<or>
      (\<exists>p. total_evaluations p < max_evaluations p \<and> iteration E p = Inr s' \<and>
           total_evaluations s' = total_evaluations p + int (length (fst (breed E p))) \<and>
           total_evaluations s' - max_evaluations s' < int (length (fst (breed E p)))))"
proof -
  from assms obtain s1 where wu: "warm_up E (population s) s = Inr s1"
    and rl: "run_loop E n s1 = Some (Inr s')"
    by (auto simp: run_def split: sum.splits)
  note b = run_loop_budget [OF rl]
  have "s' = s1 \<or> (\<exists>p. total_evaluations p < max_evaluations p \<and> iteration E p = Inr s')"
    using b by simp
  then show ?thesis
  proof
    assume "s' = s1"
    then show ?thesis using b wu run_loop_exhausted by blast
  next
    assume "\<exists>p. total_evaluations p < max_evaluations p \<and> iteration E p = Inr s'"
    then obtain p where p: "total_evaluations p < max_evaluations p" "iteration E p = Inr s'" by blast
    note i = iteration_budget [OF p(2)]
    have "total_evaluations s' - max_evaluations s' < int (length (fst (breed E p)))"
      using i(1,2) p(1) by simp
    then show ?thesis using b p i(1) run_loop_exhausted by blast
  qed
qed

subsection \<open>The engine on the concrete strategy\<close>

lemmas demo_defs = demo_def demo_config_def demo_start_def demo_mid_def demo_final_def
  demo_warm_def tie_state_def
  demo_small_final_def grow_def grow_final_def no_replace_def no_replace_final_def
  demo_seed_file_def demo_seeded_def demo_resumed_def GeneticAlgorithm_replace_def

lemmas engine_defs = run_def warm_body_def evaluate_def Let_def iteration_def breed_def
  update_best_def process_child_def list_setitem_def record_history_def average_fitness_def
  Individual_def QwopEvaluator_def construct_def

lemma construct_demo: "construct demo demo_config r0 = Inr demo_start"
  by (simp add: demo_defs engine_defs eval_nat_numeral upt_rec)

lemma construct_small:
  "construct demo (demo_config\<lparr>cfg_evaluations := 1\<rparr>) r0 = Inr (demo_start\<lparr>max_evaluations := 1\<rparr>)"
  by (simp add: demo_defs engine_defs eval_nat_numeral upt_rec)


lemma run_demo: "run demo 5 demo_start = Some (Inr demo_final)"
  by (simp add: demo_defs engine_defs eval_nat_numeral)


lemma run_small: "run demo 5 (demo_start\<lparr>max_evaluations := 1\<rparr>) = Some (Inr demo_small_final)"
  by (simp add: demo_defs engine_defs eval_nat_numeral)

lemma warm_small:
  "warm_up demo (population (demo_start\<lparr>max_evaluations := 1\<rparr>)) (demo_start\<lparr>max_evaluations := 1\<rparr>)
     = Inr demo_small_final"
  by (simp add: demo_defs engine_defs eval_nat_numeral)


lemma run_no_replace: "run no_replace 5 demo_start = Some (Inr no_replace_final)"
  by (simp add: demo_defs engine_defs eval_nat_numeral)

lemma seed_demo:
  "seed demo 3 60 (\<lambda>k. None) demo_start = ((\<lambda>k. None)(2 \<mapsto> demo_seed_file), Inr demo_seeded)"
  by (simp add: demo_defs engine_defs seed_def generate_seeds_def score_pool_def
      eval_nat_numeral upt_rec sort_key_def)

lemma load_demo: "load demo (Some (save_current_state demo_final)) demo_final = (True, demo_resumed)"
  by (simp add: demo_defs load_def save_current_state_def)

lemma load_again:
  "load demo (Some (save_current_state demo_resumed)) demo_resumed
     = (True, demo_resumed\<lparr>max_evaluations := 12\<rparr>)"
  by (simp add: demo_defs load_def save_current_state_def)

lemma process_mid: "process_child demo 3 demo_mid = Inr (demo_mid\<lparr>population := [3, 1]\<rparr>)"
  by (simp add: demo_defs engine_defs)


lemma warm_demo: "warm_up demo (population demo_start) demo_start = Inr demo_warm"
  by (simp add: demo_defs engine_defs)


lemma update_mid: "update_population demo [3] demo_mid = Inr (demo_mid\<lparr>population := [3, 1]\<rparr>)"
  by (simp add: demo_defs engine_defs)



subsection \<open>Exceptions and reachable states\<close>

lemma warm_body_population: "warm_body E a s = Inr s' \<Longrightarrow> population s' = population s"
  by (auto simp: warm_body_def Let_def split: option.splits if_splits)


lemma warm_up_population: "warm_up E as s = Inr s' \<Longrightarrow> population s' = population s"
proof (induction as arbitrary: s)
  case Nil
  then show ?case by simp
next
  case (Cons a as)
  then show ?case by (auto split: sum.splits dest: warm_body_population)
qed















subsection \<open>The result of a run does not depend on the fuel\<close>




subsection \<open>Seeding and loading\<close>

lemma load_fresh: "load demo (Some (save_current_state demo_final)) demo_start = (True, demo_resumed)"
  by (simp add: demo_defs load_def save_current_state_def)

lemma new_individuals_unset:
  "list_all (\<lambda>indv. fitness indv = None) (fst (new_individuals E n r))"
proof (induction n arbitrary: r)
  case 0
  then show ?case by simp
next
  case (Suc n)
  obtain g r1 where g: "generate_random_genome E r = (g, r1)" by (cases "generate_random_genome E r")
  obtain rest r2 where rest: "new_individuals E n r1 = (rest, r2)" by (cases "new_individuals E n r1")
  have "list_all (\<lambda>indv. fitness indv = None) rest" using Suc.IH [of r1] rest by simp
  then show ?case using g rest by (simp add: Individual_def)
qed




subsection \<open>Where the entry condition of run() holds\<close>


lemma run_loop_population_length:
  "run_loop E n s = Some (Inr s') \<Longrightarrow> length (population s') = length (population s)"
proof (induction n arbitrary: s)
  case 0
  then show ?case by (simp split: if_splits)
next
  case (Suc n)
  show ?case
  proof (cases "total_evaluations s < max_evaluations s")
    case True
    with Suc.prems obtain s1 where it: "iteration E s = Inr s1" and rest: "run_loop E n s1 = Some (Inr s')"
      by (auto split: sum.splits)
    show ?thesis using Suc.IH [OF rest] iteration_budget(3) [OF it] by simp
  next
    case False
    with Suc.prems show ?thesis by simp
  qed
qed

lemma run_entry_ok:
  assumes "entry_ok s" and "run E n s = Some (Inr s')"
  shows "entry_ok s'"
proof -
  from assms(2) obtain s1 where wu: "warm_up E (population s) s = Inr s1"
    and rl: "run_loop E n s1 = Some (Inr s')"
    by (auto simp: run_def split: sum.splits)
  have "length (population s') = length (population s)"
    using run_loop_population_length [OF rl] warm_up_population [OF wu] by simp
  then have "population s' \<noteq> []" using assms(1) by (auto simp: entry_ok_def)
  then show ?thesis using run_history_sorted [OF assms] by (simp add: entry_ok_def loop_inv_def)
qed

lemma load_entry_ok:
  assumes "entry_ok S" and "load E (Some (save_current_state S)) e = (ok, e')"
  shows "entry_ok e'"
proof -
  from assms(2) have f: "population e' = population S" "heap e' = heap S"
    "best_indv e' = best_indv S" "history e' = history S" "generations e' = generations S"
    by (auto simp: load_def save_current_state_def)
  have "best_fitness e' = best_fitness S" using f(2,3) by (rule best_fitness_eqI)
  then show ?thesis using assms(1) f
    by (simp add: entry_ok_def refs_valid_iff history_bounded_iff)
qed

lemma seed_entry_ok:
  assumes "seed E pool_size limit files s = (files', Inr t)" and "history s = []"
  shows "entry_ok t"
proof -
  have "\<exists>seeded_pop s1. history s1 = [] \<and> seeded_pop \<noteq> [] \<and>
      t = s1\<lparr>population := [length (heap s1)..<length (heap s1) + length seeded_pop],
             best_indv := Some (length (heap s1)),
             heap := heap s1 @ map (\<lambda>indv. indv\<lparr>fitness := None\<rparr>) seeded_pop\<rparr>"
  proof (cases "files (pop_size s)")
    case None
    obtain pop s' where g: "generate_seeds E pool_size limit s = (pop, s')"
      by (cases "generate_seeds E pool_size limit s")
    have "history s' = []" using g assms(2)
      by (auto simp: generate_seeds_def Let_def split: prod.splits)
    moreover have "pop \<noteq> [] \<and> t = s'\<lparr>population := [length (heap s')..<length (heap s') + length pop],
             best_indv := Some (length (heap s')),
             heap := heap s' @ map (\<lambda>indv. indv\<lparr>fitness := None\<rparr>) pop\<rparr>"
      using assms(1) None g by (simp add: seed_def split: if_splits)
    ultimately show ?thesis by blast
  next
    case (Some stored)
    have "stored \<noteq> [] \<and> t = s\<lparr>population := [length (heap s)..<length (heap s) + length stored],
             best_indv := Some (length (heap s)),
             heap := heap s @ map (\<lambda>indv. indv\<lparr>fitness := None\<rparr>) stored\<rparr>"
      using assms(1) Some by (simp add: seed_def split: if_splits)
    then show ?thesis using assms(2) by blast
  qed
  then obtain seeded_pop s1 where h: "history s1 = []" and ne: "seeded_pop \<noteq> []"
    and t: "t = s1\<lparr>population := [length (heap s1)..<length (heap s1) + length seeded_pop],
             best_indv := Some (length (heap s1)),
             heap := heap s1 @ map (\<lambda>indv. indv\<lparr>fitness := None\<rparr>) seeded_pop\<rparr>"
    by blast
  have "refs_valid t" using ne unfolding t by (auto simp: refs_valid_iff)
  moreover have "population t \<noteq> []" using ne unfolding t by simp
  moreover have "history t = []" using h unfolding t by simp
  ultimately show ?thesis by (simp add: entry_ok_def history_bounded_def history_sorted_def)
qed

section \<open>The claims\<close>

subsection \<open>C1: budget termination\<close>

text \<open>
  Claim C1, as amended. \<open>run()\<close> returns only in a state whose budget is exhausted
  (\<open>max_evaluations \<le> total_evaluations\<close>), and in such a state the loop exits at the
  top of an iteration whatever the fuel. An iteration that has begun always completes:
  the returned state is either the state after the warm-up, when no iteration ran, or
  the result of a whole iteration that began with \<open>total_evaluations < max_evaluations\<close>.
  In the second case the iteration advanced \<open>total_evaluations\<close> by the number of its
  offspring, and the excess over \<open>max_evaluations\<close> is smaller than that number.
  Nothing bounds the excess of the warm-up.
\<close>

theorem budget_termination:
  assumes "run E n s = Some (Inr s')"
  shows "max_evaluations s' \<le> total_evaluations s' \<and>
     (\<forall>k. run_loop E k s' = Some (Inr s')) \<and>
     (warm_up E (population s) s = Inr s' \<or>
      (\<exists>p. total_evaluations p < max_evaluations p \<and> iteration E p = Inr s' \<and>
           total_evaluations s' = total_evaluations p + int (length (fst (breed E p))) \<and>
           total_evaluations s' - max_evaluations s' < int (length (fst (breed E p)))))"
  using run_budget [OF assms] .

text \<open>The amended claim on the concrete strategy, with a budget of four evaluations.\<close>

theorem budget_termination_witness:
  "run demo 5 demo_start = Some (Inr demo_final) \<and>
   (max_evaluations demo_final \<le> total_evaluations demo_final \<and>
     (\<forall>k. run_loop demo k demo_final = Some (Inr demo_final)) \<and>
     (warm_up demo (population demo_start) demo_start = Inr demo_final \<or>
      (\<exists>p. total_evaluations p < max_evaluations p \<and> iteration demo p = Inr demo_final \<and>
           total_evaluations demo_final = total_evaluations p + int (length (fst (breed demo p))) \<and>
           total_evaluations demo_final - max_evaluations demo_final < int (length (fst (breed demo p))))))"
  using run_demo budget_termination [OF run_demo] by (rule conjI)

text \<open>
  The claim as stated fails: with a population of two and a budget of one evaluation
  the warm-up evaluates both individuals, no iteration runs (the generation counter
  and the history are as constructed), and \<open>run()\<close> returns with one evaluation more
  than the budget, although no offspring was evaluated.
\<close>

theorem budget_overshoot_counterexample:
  "construct demo (demo_config\<lparr>cfg_evaluations := 1\<rparr>) (0::nat) = Inr (demo_start\<lparr>max_evaluations := 1\<rparr>) \<and>
   run demo 5 (demo_start\<lparr>max_evaluations := 1\<rparr>) = Some (Inr demo_small_final) \<and>
   warm_up demo (population (demo_start\<lparr>max_evaluations := 1\<rparr>)) (demo_start\<lparr>max_evaluations := 1\<rparr>)
     = Inr demo_small_final \<and>
   generations demo_small_final = generations (demo_start\<lparr>max_evaluations := 1\<rparr>) \<and>
   history demo_small_final = [] \<and>
   total_evaluations demo_small_final - max_evaluations demo_small_final = 1"
  using construct_small [of 0] run_small warm_small
  by (simp add: demo_small_final_def demo_start_def)

subsection \<open>C2: population size\<close>

text \<open>
  Claim C2 at a failing input. The claim says that the population has exactly
  \<open>pop_size\<close> members after construction and after any sequence of \<open>run()\<close>
  iterations, \<open>seed()\<close> and \<open>load()\<close> calls. On an engine constructed with
  \<open>pop_size = 2\<close> and an empty seed cache, \<open>seed(3, 60)\<close> installs a population of
  three: the slice of the sorted pool is \<open>[:pool_size]\<close>, not \<open>[:self.pop_size]\<close>.
\<close>

theorem seed_breaks_population_size:
  "construct demo demo_config (0::nat) = Inr demo_start \<and>
   length (population demo_start) = 2 \<and>
   snd (seed demo 3 60 (\<lambda>k. None) demo_start) = Inr demo_seeded \<and>
   pop_size demo_seeded = 2 \<and> length (population demo_seeded) = 3"
  using construct_demo [of 0] seed_demo by (simp add: demo_start_def demo_seeded_def)

subsection \<open>C3: monotonic best fitness\<close>



subsection \<open>C4: determinism\<close>



subsection \<open>C5: checkpoint round trip\<close>

text \<open>
  Claim C5, as amended. \<open>load()\<close> of the checkpoint that \<open>save_current_state()\<close> wrote
  in a state \<open>S\<close> succeeds and reproduces population (the same individuals, by value),
  generation counter, \<open>total_evaluations\<close> and history of \<open>S\<close>, reseeds the random
  generator from the stored seed, and sets \<open>max_evaluations\<close> to
  \<open>S.total_evaluations\<close> plus the \<open>max_evaluations\<close> that the loading engine holds at
  the call. That is the value given at construction when the loading engine is
  freshly constructed.
\<close>

theorem checkpoint_round_trip:
  assumes "load E (Some (save_current_state S)) e = (ok, e')"
  shows "ok \<and> population e' = population S \<and>
     map (\<lambda>a. heap e' ! a) (population e') = map (\<lambda>a. heap S ! a) (population S) \<and>
     generations e' = generations S \<and> total_evaluations e' = total_evaluations S \<and>
     history e' = history S \<and> rng e' = random_seed_fn E (random_seed S) \<and>
     max_evaluations e' = total_evaluations S + max_evaluations e \<and>
     (\<forall>cfg r0. construct E cfg r0 = Inr e \<longrightarrow>
        max_evaluations e' = total_evaluations S + cfg_evaluations cfg)"
proof -
  have m: "\<And>cfg r0. construct E cfg r0 = Inr e \<Longrightarrow> max_evaluations e = cfg_evaluations cfg"
    by (auto simp: construct_def Let_def split: prod.splits if_splits)
  show ?thesis using assms m by (auto simp: load_def save_current_state_def)
qed

text \<open>The finished run of the concrete strategy, loaded into a freshly constructed engine.\<close>

theorem checkpoint_round_trip_witness:
  "load demo (Some (save_current_state demo_final)) demo_start = (True, demo_resumed) \<and>
   construct demo demo_config (0::nat) = Inr demo_start \<and>
   population demo_resumed = population demo_final \<and>
   map (\<lambda>a. heap demo_resumed ! a) (population demo_resumed)
     = map (\<lambda>a. heap demo_final ! a) (population demo_final) \<and>
   generations demo_resumed = generations demo_final \<and>
   total_evaluations demo_resumed = total_evaluations demo_final \<and>
   history demo_resumed = history demo_final \<and>
   max_evaluations demo_resumed = total_evaluations demo_final + cfg_evaluations demo_config"
proof -
  note t = checkpoint_round_trip [OF load_fresh]
  from t have all: "\<forall>cfg r0. construct demo cfg r0 = Inr demo_start \<longrightarrow>
      max_evaluations demo_resumed = total_evaluations demo_final + cfg_evaluations cfg"
    by (elim conjE)
  have m: "max_evaluations demo_resumed = total_evaluations demo_final + cfg_evaluations demo_config"
    using all construct_demo [of 0] by blast
  show ?thesis
    using load_fresh construct_demo [of 0] t m
    by (elim conjE, intro conjI) assumption+
qed

text \<open>
  The claim as stated fails for a run state that was itself resumed: the engine
  constructed with a budget of 4 and resumed once holds \<open>max_evaluations = 8\<close>; saving
  and loading it again gives \<open>4 + 8 = 12\<close>, not \<open>4 + 4\<close>.
\<close>

theorem checkpoint_budget_counterexample:
  "construct demo demo_config (0::nat) = Inr demo_start \<and> cfg_evaluations demo_config = 4 \<and>
   run demo 5 demo_start = Some (Inr demo_final) \<and>
   load demo (Some (save_current_state demo_final)) demo_final = (True, demo_resumed) \<and>
   total_evaluations demo_resumed = 4 \<and>
   max_evaluations (snd (load demo (Some (save_current_state demo_resumed)) demo_resumed)) = 12"
  using construct_demo [of 0] run_demo load_demo load_again
  by (simp add: demo_config_def demo_resumed_def demo_final_def demo_mid_def demo_start_def)

subsection \<open>C6: omitted operators\<close>

text \<open>
  Claim C6 at a failing input. The claim says that the engine fails with a
  configuration error the first time an omitted operator is invoked. With the
  strategy of a subclass that does not define \<open>replace\<close>, \<open>run()\<close> returns normally:
  the inherited method answers \<open>None\<close>, which the loop takes for "discard", so every
  child is dropped and the population stays as constructed.
\<close>

theorem omitted_replace_is_silent:
  "run no_replace 5 demo_start = Some (Inr no_replace_final) \<and>
   replace no_replace = GeneticAlgorithm_replace \<and>
   population no_replace_final = population demo_start \<and>
   total_evaluations no_replace_final = 4"
  using run_no_replace
  by (simp add: no_replace_def no_replace_final_def demo_mid_def demo_start_def)

subsection \<open>C7: seeding keeps the top of the pool\<close>

text \<open>
  Claim C7 at a failing input. The claim says that the list persisted to the seed
  cache and installed as the population consists of the top \<open>pop_size\<close> individuals
  of the pool. With \<open>pop_size = 2\<close> and \<open>pool_size = 3\<close> the cache file
  \<open>seed_2.tsd\<close> receives all three individuals of the pool, sorted by descending
  distance.
\<close>

theorem seed_keeps_whole_pool:
  "seed demo 3 60 (\<lambda>k. None) demo_start = ((\<lambda>k. None)(2 \<mapsto> demo_seed_file), Inr demo_seeded) \<and>
   pop_size demo_start = 2 \<and> length demo_seed_file = 3 \<and>
   map genome demo_seed_file = [7, 6, 5]"
  using seed_demo by (simp add: demo_start_def demo_seed_file_def)

subsection \<open>C8: the evaluation adapter\<close>




subsection \<open>C9: the population is never empty\<close>



subsection \<open>C10: the best individual is an independent reference\<close>



end
